theory Spec2Isabelle
  imports Main "HOL-Library.DAList"
begin

section \<open>Values, records and exceptions\<close>

text \<open>
  A field value fetched from Airtable is a loosely typed scalar. Floating point numbers
  and list-valued fields are outside this model; every function below treats a value
  that is not a \<open>str\<close> the same way, so the claims do not depend on them.
\<close>

datatype pyvalue = VStr string | VInt int | VBool bool | VNone

text \<open>
  A fetched record is \<^verbatim>\<open>{'id': ..., 'fields': {...}}\<close>. The \<open>fields\<close> dict is an
  association list in insertion order.
\<close>

record airtable_record =
  rec_id :: string
  rec_fields :: "(string \<times> pyvalue) list"

text \<open>Every exception the modelled code can meet is a subclass of \<open>Exception\<close>.\<close>

datatype exn =
    RemoteError string
  | StorageError string
  | ValueError string
  | AttributeError string


section \<open>airtable\_csv.py: record\_comma\_check\<close>

text \<open>\<^verbatim>\<open>s.replace('"', '""')\<close>\<close>

definition replace_quote :: "string \<Rightarrow> string" where
  "replace_quote s = concat (map (\<lambda>c. if c = CHR 0x22 then [CHR 0x22, CHR 0x22] else [c]) s)"

text \<open>
  The body of the loop of \<open>record_comma_check\<close> for one key: the value is replaced
  only when it is a \<open>str\<close> and contains a comma.
\<close>

fun comma_check_value :: "pyvalue \<Rightarrow> pyvalue" where
  "comma_check_value (VStr s) = (if CHR '','' \<in> set s then VStr (replace_quote s) else VStr s)"
| "comma_check_value v = v"

definition record_comma_check :: "airtable_record \<Rightarrow> airtable_record" where
  "record_comma_check r = r\<lparr>rec_fields := map (\<lambda>(k, v). (k, comma_check_value v)) (rec_fields r)\<rparr>"

section \<open>The csv module: DictWriter with the default (excel) dialect\<close>

text \<open>\<open>str(x)\<close> for the scalars of the model; \<open>None\<close> is written as the empty string.\<close>

fun digit_char :: "nat \<Rightarrow> char" where
  "digit_char n = char_of (48 + n)"

function string_of_nat :: "nat \<Rightarrow> string" where
  "string_of_nat n =
     (if n < 10 then [digit_char n] else string_of_nat (n div 10) @ [digit_char (n mod 10)])"
  by pat_completeness auto
termination
  by (relation "measure id") auto

definition str_int :: "int \<Rightarrow> string" where
  "str_int i = (if i < 0 then CHR ''-'' # string_of_nat (nat (- i)) else string_of_nat (nat i))"

fun csv_field_text :: "pyvalue \<Rightarrow> string" where
  "csv_field_text (VStr s) = s"
| "csv_field_text (VInt i) = str_int i"
| "csv_field_text (VBool b) = (if b then ''True'' else ''False'')"
| "csv_field_text VNone = []"

text \<open>
  QUOTE\_MINIMAL: a field is quoted when it contains the delimiter, the quote character
  or a character of the line terminator; inside quotes the quote character is doubled.
\<close>

definition needs_quote :: "char \<Rightarrow> bool" where
  "needs_quote c \<longleftrightarrow> c = CHR '','' \<or> c = CHR 0x22 \<or> c = CHR 0x0D \<or> c = CHR 0x0A"

definition join_append :: "string \<Rightarrow> string" where
  "join_append s =
     (if \<exists>c \<in> set s. needs_quote c then [CHR 0x22] @ replace_quote s @ [CHR 0x22] else s)"

fun join_fields :: "string list \<Rightarrow> string" where
  "join_fields [] = []"
| "join_fields [f] = f"
| "join_fields (f # fs) = f @ [CHR '',''] @ join_fields fs"

text \<open>A row whose only field is empty is written as a pair of quotes.\<close>

definition writer_writerow :: "string list \<Rightarrow> string" where
  "writer_writerow cells =
     (if cells = [[]] then [CHR 0x22, CHR 0x22]
      else join_fields (map join_append cells)) @ [CHR 0x0D, CHR 0x0A]"

text \<open>
  \<open>DictWriter._dict_to_list\<close> with \<open>extrasaction='raise'\<close> and \<open>restval=''\<close>: a key
  of the row that is no field name raises ValueError; a field name the row lacks gives
  the empty string.
\<close>

definition dict_to_list :: "string list \<Rightarrow> (string \<times> pyvalue) list \<Rightarrow> exn + pyvalue list" where
  "dict_to_list fieldnames rowdict =
     (if \<exists>k \<in> set (map fst rowdict). k \<notin> set fieldnames
      then Inl (ValueError ''dict contains fields not in fieldnames'')
      else Inr (map (\<lambda>key. case map_of rowdict key of None \<Rightarrow> VStr [] | Some v \<Rightarrow> v) fieldnames))"

section \<open>airtable\_csv.py: AirtableCSVManager\<close>

text \<open>
  A storage object is known by its reference. The world records every call of
  \<open>import_csv_rows\<close> as (storage, table name, csv data); whether such a call raises is
  the storage's business and a parameter here.
\<close>

type_synonym storage_ref = nat

type_synonym storage_log = "(storage_ref \<times> string \<times> string) list"

record csv_manager =
  m_oid :: nat
  m_base_id :: string
  m_table_name :: string
  m_api_key :: string
  m_sqlite_storage :: "storage_ref option"

text \<open>
  The collaborators: \<open>get_all\<close> is \<^verbatim>\<open>Airtable(base_id, table_name, api_key).get_all()\<close>,
  \<open>import_raises\<close> says whether \<open>import_csv_rows\<close> raises, and the two lookups are the
  storage's read operations. \<open>str_hash\<close> belongs to the Python runtime: it stands for
  what decides the order in which a set of strings is listed.
\<close>

record collaborators =
  str_hash :: "string \<Rightarrow> nat"
  get_all :: "string \<Rightarrow> string \<Rightarrow> string \<Rightarrow> exn + airtable_record list"
  import_raises :: "storage_ref \<Rightarrow> string \<Rightarrow> string \<Rightarrow> exn option"
  find_value_by_row_and_column ::
    "storage_ref \<Rightarrow> string \<Rightarrow> string \<Rightarrow> string \<Rightarrow> string \<Rightarrow> exn + pyvalue option"
  storage_execute_sql_query ::
    "storage_ref \<Rightarrow> string \<Rightarrow> string \<Rightarrow> exn + (string \<times> pyvalue) list list option"

text \<open>
  \<^verbatim>\<open>fieldnames = list(set of all keys)\<close>. The order in which Python lists a set is not
  specified and follows the hashes of its elements. The model lists the keys, each once,
  sorted by an arbitrary function \<open>h\<close>: every order of the keys is the result for some
  \<open>h\<close>, and what is proved for all \<open>h\<close> holds for whatever order the runtime takes.
\<close>

definition fieldnames_of :: "(string \<Rightarrow> nat) \<Rightarrow> airtable_record list \<Rightarrow> string list" where
  "fieldnames_of h records =
     sort_key h (remdups (concat (map (\<lambda>r. map fst (rec_fields r)) records)))"

text \<open>The loop over the records: comma check, then \<open>writer.writerow(record['fields'])\<close>.\<close>

fun write_rows :: "string list \<Rightarrow> airtable_record list \<Rightarrow> exn + pyvalue list list" where
  "write_rows fieldnames [] = Inr []"
| "write_rows fieldnames (r # rs) =
     (case dict_to_list fieldnames (rec_fields (record_comma_check r)) of
        Inl e \<Rightarrow> Inl e
      | Inr row \<Rightarrow>
          (case write_rows fieldnames rs of
             Inl e \<Rightarrow> Inl e
           | Inr rows \<Rightarrow> Inr (row # rows)))"

text \<open>The text in the StringIO: the header, then one line per row.\<close>

definition csv_text :: "string list \<Rightarrow> pyvalue list list \<Rightarrow> string" where
  "csv_text fieldnames rows =
     writer_writerow fieldnames @ concat (map (\<lambda>row. writer_writerow (map csv_field_text row)) rows)"

definition success_message :: "string \<Rightarrow> string" where
  "success_message table_name =
     ''Successfully updated DB from Airtable for table '' @ table_name @ ''.''"

definition update_csv_from_airtable ::
  "collaborators \<Rightarrow> csv_manager \<Rightarrow> storage_log \<Rightarrow> (exn + string option) \<times> storage_log" where
  "update_csv_from_airtable env m log =
     (case get_all env (m_base_id m) (m_table_name m) (m_api_key m) of
        Inl e \<Rightarrow> (Inl e, log)
      | Inr records \<Rightarrow>
          if records = [] then (Inr None, log)
          else
            (let fieldnames = fieldnames_of (str_hash env) records in
             case write_rows fieldnames records of
               Inl e \<Rightarrow> (Inl e, log)
             | Inr rows \<Rightarrow>
                 (let csv_data = csv_text fieldnames rows in
                  case m_sqlite_storage m of
                    None \<Rightarrow> (Inr (Some (success_message (m_table_name m))), log)
                  | Some st \<Rightarrow>
                      (let log' = log @ [(st, m_table_name m, csv_data)] in
                       case import_raises env st (m_table_name m) csv_data of
                         Some e \<Rightarrow> (Inl e, log')
                       | None \<Rightarrow> (Inr (Some (success_message (m_table_name m))), log')))))"

definition get_value_by_row_and_column ::
  "collaborators \<Rightarrow> csv_manager \<Rightarrow> string \<Rightarrow> string \<Rightarrow> string \<Rightarrow> exn + pyvalue option" where
  "get_value_by_row_and_column env m column_containing_reference reference_value target_column =
     (case m_sqlite_storage m of
        Some st \<Rightarrow> find_value_by_row_and_column env st (m_table_name m)
                     column_containing_reference reference_value target_column
      | None \<Rightarrow> Inr None)"

definition execute_sql_query ::
  "collaborators \<Rightarrow> csv_manager \<Rightarrow> string \<Rightarrow> exn + (string \<times> pyvalue) list list option" where
  "execute_sql_query env m sql_query =
     (case m_sqlite_storage m of
        Some st \<Rightarrow> storage_execute_sql_query env st (m_table_name m) sql_query
      | None \<Rightarrow> Inr None)"

section \<open>The csv module: reader with the default (excel) dialect\<close>

text \<open>
  The state machine of \<open>csv.reader\<close> (non-strict, no escape character, delimiter
  comma, quote character double quote, doubled quotes). \<open>None\<close> as input is the end of
  a line.
\<close>

datatype parse_state =
  START_RECORD | START_FIELD | IN_FIELD | IN_QUOTED_FIELD | QUOTE_IN_QUOTED_FIELD | EAT_CRNL

record reader =
  state :: parse_state
  field :: string
  row :: "string list"

definition parse_save_field :: "parse_state \<Rightarrow> reader \<Rightarrow> reader" where
  "parse_save_field st r = \<lparr>state = st, field = [], row = row r @ [field r]\<rparr>"

definition parse_add_char :: "parse_state \<Rightarrow> char \<Rightarrow> reader \<Rightarrow> reader" where
  "parse_add_char st c r = r\<lparr>state := st, field := field r @ [c]\<rparr>"

definition is_newline :: "char \<Rightarrow> bool" where
  "is_newline c \<longleftrightarrow> c = CHR 0x0A \<or> c = CHR 0x0D"

definition parse_start_field :: "reader \<Rightarrow> char option \<Rightarrow> reader" where
  "parse_start_field r inp =
     (case inp of
        None \<Rightarrow> parse_save_field START_RECORD r
      | Some c \<Rightarrow>
          if is_newline c then parse_save_field EAT_CRNL r
          else if c = CHR 0x22 then r\<lparr>state := IN_QUOTED_FIELD\<rparr>
          else if c = CHR '','' then parse_save_field START_FIELD r
          else parse_add_char IN_FIELD c r)"

fun parse_process_char :: "reader \<Rightarrow> char option \<Rightarrow> exn + reader" where
  "parse_process_char r inp =
     (case state r of
        START_RECORD \<Rightarrow>
          (case inp of
             None \<Rightarrow> Inr r
           | Some c \<Rightarrow>
               if is_newline c then Inr (r\<lparr>state := EAT_CRNL\<rparr>)
               else Inr (parse_start_field r inp))
      | START_FIELD \<Rightarrow> Inr (parse_start_field r inp)
      | IN_FIELD \<Rightarrow>
          (case inp of
             None \<Rightarrow> Inr (parse_save_field START_RECORD r)
           | Some c \<Rightarrow>
               if is_newline c then Inr (parse_save_field EAT_CRNL r)
               else if c = CHR '','' then Inr (parse_save_field START_FIELD r)
               else Inr (parse_add_char IN_FIELD c r))
      | IN_QUOTED_FIELD \<Rightarrow>
          (case inp of
             None \<Rightarrow> Inr r
           | Some c \<Rightarrow>
               if c = CHR 0x22 then Inr (r\<lparr>state := QUOTE_IN_QUOTED_FIELD\<rparr>)
               else Inr (parse_add_char IN_QUOTED_FIELD c r))
      | QUOTE_IN_QUOTED_FIELD \<Rightarrow>
          (case inp of
             None \<Rightarrow> Inr (parse_save_field START_RECORD r)
           | Some c \<Rightarrow>
               if c = CHR 0x22 then Inr (parse_add_char IN_QUOTED_FIELD c r)
               else if c = CHR '','' then Inr (parse_save_field START_FIELD r)
               else if is_newline c then Inr (parse_save_field EAT_CRNL r)
               else Inr (parse_add_char IN_FIELD c r))
      | EAT_CRNL \<Rightarrow>
          (case inp of
             None \<Rightarrow> Inr (r\<lparr>state := START_RECORD\<rparr>)
           | Some c \<Rightarrow>
               if is_newline c then Inr r
               else Inl (ValueError ''new-line character seen in unquoted field'')))"

fun parse_chars :: "reader \<Rightarrow> string \<Rightarrow> exn + reader" where
  "parse_chars r [] = parse_process_char r None"
| "parse_chars r (c # cs) =
     (case parse_process_char r (Some c) of Inl e \<Rightarrow> Inl e | Inr r' \<Rightarrow> parse_chars r' cs)"

text \<open>Iterating a StringIO: the text is cut after every line feed.\<close>

fun split_lines :: "string \<Rightarrow> string \<Rightarrow> string list" where
  "split_lines acc [] = (if acc = [] then [] else [acc])"
| "split_lines acc (c # cs) =
     (if c = CHR 0x0A then (acc @ [c]) # split_lines [] cs else split_lines (acc @ [c]) cs)"

definition parse_reset :: reader where
  "parse_reset = \<lparr>state = START_RECORD, field = [], row = []\<rparr>"

text \<open>
  \<open>list(csv.reader(lines))\<close>: for one row, lines are consumed until the machine is back
  at the start of a record; the next row starts from a reset machine. When the lines run
  out inside a field, what was read is the last row.
\<close>

fun read_rows :: "reader \<Rightarrow> string list \<Rightarrow> exn + string list list" where
  "read_rows r [] =
     (if field r \<noteq> [] \<or> state r = IN_QUOTED_FIELD
      then Inr [row (parse_save_field START_RECORD r)] else Inr [])"
| "read_rows r (l # ls) =
     (case parse_chars r l of
        Inl e \<Rightarrow> Inl e
      | Inr r' \<Rightarrow>
          if state r' = START_RECORD
          then (case read_rows parse_reset ls of
                  Inl e \<Rightarrow> Inl e
                | Inr rows \<Rightarrow> Inr (row r' # rows))
          else read_rows r' ls)"

definition csv_reader :: "string \<Rightarrow> exn + string list list" where
  "csv_reader text = read_rows parse_reset (split_lines [] text)"

text \<open>
  Two functions for reasoning about the reader. \<open>feed\<close> is the loop of \<open>parse_chars\<close>
  without the end of the line. \<open>scan\<close> reads a text by characters: after a line feed
  comes the end of a line, and a row is complete when the machine is then back at the
  start of a record. \<open>read_rows_scan\<close> below shows that it reads what \<open>read_rows\<close>
  reads from the lines of the text.
\<close>

fun feed :: "reader \<Rightarrow> string \<Rightarrow> exn + reader" where
  "feed r [] = Inr r"
| "feed r (c # cs) =
     (case parse_process_char r (Some c) of Inl e \<Rightarrow> Inl e | Inr r' \<Rightarrow> feed r' cs)"

fun scan :: "reader \<Rightarrow> string \<Rightarrow> exn + string list list" where
  "scan r [] =
     (if field r \<noteq> [] \<or> state r = IN_QUOTED_FIELD
      then Inr [row (parse_save_field START_RECORD r)] else Inr [])"
| "scan r (c # cs) =
     (case parse_process_char r (Some c) of
        Inl e \<Rightarrow> Inl e
      | Inr r' \<Rightarrow>
          if c = CHR 0x0A
          then (case parse_process_char r' None of
                  Inl e \<Rightarrow> Inl e
                | Inr r'' \<Rightarrow>
                    if state r'' = START_RECORD
                    then (case scan parse_reset cs of
                            Inl e \<Rightarrow> Inl e
                          | Inr rows \<Rightarrow> Inr (row r'' # rows))
                    else scan r'' cs)
          else scan r' cs)"

section \<open>airtable\_multi\_manager.py: AirtableMultiManager\<close>

text \<open>
  \<open>managers\<close> is a Python dict: an association list with distinct keys, in insertion
  order, where storing under a present key replaces the value in place and \<open>del\<close>
  removes the entry. \<open>next_oid\<close> is not an attribute of the class: it numbers the
  AirtableCSVManager objects the coordinator has constructed, and stands for the identity
  of each object.
\<close>

record multi_manager =
  api_key :: string
  base_id :: string
  managers :: "(string, csv_manager) alist"
  sqlite_storage :: storage_ref
  table_names :: "string list"
  next_oid :: nat

text \<open>
  \<^verbatim>\<open>self.managers[table_name] = AirtableCSVManager(base_id=..., table_name=...,
  api_key=..., sqlite_storage=self.sqlite_storage)\<close>
\<close>

definition new_manager :: "multi_manager \<Rightarrow> string \<Rightarrow> csv_manager" where
  "new_manager mm table_name =
     \<lparr>m_oid = next_oid mm, m_base_id = base_id mm, m_table_name = table_name,
      m_api_key = api_key mm, m_sqlite_storage = Some (sqlite_storage mm)\<rparr>"

definition set_manager :: "string \<Rightarrow> multi_manager \<Rightarrow> multi_manager" where
  "set_manager table_name mm =
     mm\<lparr>managers := DAList.update table_name (new_manager mm table_name) (managers mm),
        next_oid := Suc (next_oid mm)\<rparr>"

definition initialize_managers :: "multi_manager \<Rightarrow> multi_manager" where
  "initialize_managers mm = fold set_manager (table_names mm) mm"

text \<open>
  \<open>__init__\<close>: \<open>new_storage\<close> is the object \<open>SQLiteStorage()\<close> would construct when
  no storage is passed.
\<close>

definition init ::
  "string \<Rightarrow> string \<Rightarrow> string list option \<Rightarrow> storage_ref option \<Rightarrow> storage_ref \<Rightarrow> multi_manager" where
  "init the_api_key the_base_id the_table_names the_storage new_storage =
     initialize_managers
       \<lparr>api_key = the_api_key, base_id = the_base_id, managers = DAList.empty,
        sqlite_storage = (case the_storage of Some st \<Rightarrow> st | None \<Rightarrow> new_storage),
        table_names = (case the_table_names of None \<Rightarrow> [''DataHub_Craffft''] | Some ns \<Rightarrow> ns),
        next_oid = 0\<rparr>"

definition add_table :: "string \<Rightarrow> multi_manager \<Rightarrow> multi_manager" where
  "add_table table_name mm =
     set_manager table_name
       (if table_name \<notin> set (table_names mm)
        then mm\<lparr>table_names := table_names mm @ [table_name]\<rparr> else mm)"

definition get_manager :: "multi_manager \<Rightarrow> string \<Rightarrow> csv_manager option" where
  "get_manager mm table_name = DAList.lookup (managers mm) table_name"

definition multi_update_csv_from_airtable ::
  "collaborators \<Rightarrow> multi_manager \<Rightarrow> string \<Rightarrow> storage_log \<Rightarrow> (exn + string option) \<times> storage_log" where
  "multi_update_csv_from_airtable env mm table_name log =
     (case get_manager mm table_name of
        Some manager \<Rightarrow> update_csv_from_airtable env manager log
      | None \<Rightarrow> (Inr None, log))"




definition get_available_tables :: "multi_manager \<Rightarrow> string list" where
  "get_available_tables mm = map fst (DAList.impl_of (managers mm))"

definition remove_table :: "string \<Rightarrow> multi_manager \<Rightarrow> bool \<times> multi_manager" where
  "remove_table table_name mm =
     (if DAList.lookup (managers mm) table_name \<noteq> None
      then (True,
            mm\<lparr>managers := DAList.delete table_name (managers mm),
               table_names :=
                 (if table_name \<in> set (table_names mm)
                  then remove1 table_name (table_names mm) else table_names mm)\<rparr>)
      else (False, mm))"

text \<open>
  The answer of the metadata endpoint. \<open>response.json()\<close> raises or gives the decoded
  body: an object, whose \<open>tables\<close> entry (when present) lists objects of which each has
  a \<open>name\<close> or not, or something that is no object.
\<close>

datatype json_body = JsonObject "string option list option" | JsonOther

record http_response =
  status_code :: int
  json :: "exn + json_body"

text \<open>\<^verbatim>\<open>[table['name'] for table in ...]\<close>: a table without a name raises KeyError.\<close>

fun table_names_of :: "string option list \<Rightarrow> string list option" where
  "table_names_of [] = Some []"
| "table_names_of (None # ts) = None"
| "table_names_of (Some n # ts) =
     (case table_names_of ts of None \<Rightarrow> None | Some ns \<Rightarrow> Some (n # ns))"

text \<open>
  \<open>requests_get\<close> maps the base id in the URL to the outcome of \<open>requests.get\<close>. Every
  exception is caught inside the function, which prints and returns None.
\<close>

definition get_tables_from_base ::
  "(string \<Rightarrow> exn + http_response) \<Rightarrow> multi_manager \<Rightarrow> string option \<Rightarrow> string list option" where
  "get_tables_from_base requests_get mm the_base_id =
     (let b = (case the_base_id of None \<Rightarrow> base_id mm | Some b \<Rightarrow> b) in
      case requests_get b of
        Inl e \<Rightarrow> None
      | Inr response \<Rightarrow>
          if status_code response = 200
          then (case json response of
                  Inl e \<Rightarrow> None
                | Inr JsonOther \<Rightarrow> None
                | Inr (JsonObject tables) \<Rightarrow>
                    table_names_of (case tables of None \<Rightarrow> [] | Some ts \<Rightarrow> ts))
          else None)"

text \<open>
  \<open>add_table\<close> raises nothing, so the \<open>except\<close> branch that records False is never
  taken. An empty list of names is falsy and takes the \<open>else\<close> branch, as None does.
\<close>

definition discover_and_add_tables_from_base ::
  "(string \<Rightarrow> exn + http_response) \<Rightarrow> multi_manager \<Rightarrow> (string, bool) alist \<times> multi_manager" where
  "discover_and_add_tables_from_base requests_get mm =
     (case get_tables_from_base requests_get mm None of
        None \<Rightarrow> (DAList.empty, mm)
      | Some names \<Rightarrow>
          fold (\<lambda>table_name acc. (DAList.update table_name True (fst acc), add_table table_name (snd acc)))
            names (DAList.empty, mm))"

definition get_value ::
  "collaborators \<Rightarrow> multi_manager \<Rightarrow> string \<Rightarrow> string \<Rightarrow> string \<Rightarrow> string \<Rightarrow> exn + pyvalue option" where
  "get_value env mm table_name column_containing_reference reference_value target_column =
     (case get_manager mm table_name of
        Some manager \<Rightarrow>
          get_value_by_row_and_column env manager column_containing_reference reference_value target_column
      | None \<Rightarrow> Inr None)"

definition multi_execute_sql_query ::
  "collaborators \<Rightarrow> multi_manager \<Rightarrow> string \<Rightarrow> string \<Rightarrow> exn + (string \<times> pyvalue) list list option" where
  "multi_execute_sql_query env mm table_name sql_query =
     (case get_manager mm table_name of
        Some manager \<Rightarrow> execute_sql_query env manager sql_query
      | None \<Rightarrow> Inr None)"

text \<open>
  The attributes an AirtableMultiManager object has: the methods of the class and the
  attributes set by \<open>__init__\<close>. Looking up any other name raises AttributeError; the
  class defines neither \<open>get_row\<close> nor \<open>lookup_row\<close>.
\<close>

definition multi_manager_attributes :: "string list" where
  "multi_manager_attributes =
     [''__init__'', ''_initialize_managers'', ''add_table'', ''get_manager'', ''get_csv_data'',
      ''update_csv_from_airtable'', ''convert_csv_to_json'', ''update_all_tables'',
      ''get_available_tables'', ''remove_table'', ''from_environment'', ''from_config_dict'',
      ''get_tables_from_base'', ''discover_and_add_tables_from_base'', ''get_value'',
      ''execute_sql_query'', ''api_key'', ''base_id'', ''managers'', ''sqlite_storage'',
      ''table_names'']"

definition multi_manager_getattr :: "string \<Rightarrow> exn + string" where
  "multi_manager_getattr name =
     (if name \<in> set multi_manager_attributes then Inr name
      else Inl (AttributeError (''AirtableMultiManager object has no attribute '' @ name)))"

text \<open>The operations that change the set of tables, for sequences of calls.\<close>

datatype coordinator_op =
    AddTable string
  | RemoveTable string
  | DiscoverAndAdd "string \<Rightarrow> exn + http_response"

fun apply_op :: "coordinator_op \<Rightarrow> multi_manager \<Rightarrow> multi_manager" where
  "apply_op (AddTable n) mm = add_table n mm"
| "apply_op (RemoveTable n) mm = snd (remove_table n mm)"
| "apply_op (DiscoverAndAdd requests_get) mm = snd (discover_and_add_tables_from_base requests_get mm)"

text \<open>
  The invariant of the coordinator: the list of table names has no duplicates and holds
  exactly the keys of \<open>managers\<close> (a dict, so each key has one handle), and the handle
  stored under a name is bound to that name and to the shared storage.
\<close>

definition handles_bound :: "multi_manager \<Rightarrow> bool" where
  "handles_bound mm \<longleftrightarrow>
     (\<forall>t h. get_manager mm t = Some h \<longrightarrow>
        m_table_name h = t \<and> m_sqlite_storage h = Some (sqlite_storage mm))"

definition registry_consistent :: "multi_manager \<Rightarrow> bool" where
  "registry_consistent mm \<longleftrightarrow>
     distinct (table_names mm)
     \<and> set (table_names mm) = set (get_available_tables mm)
     \<and> handles_bound mm"

section \<open>Example data\<close>

text \<open>The value \<^verbatim>\<open>He said "hi", bye\<close>, and the same with every quote doubled.\<close>

definition he_said :: string where
  "he_said = ''He said '' @ [CHR 0x22] @ ''hi'' @ [CHR 0x22] @ '', bye''"

definition he_said_doubled :: string where
  "he_said_doubled =
     ''He said '' @ [CHR 0x22, CHR 0x22] @ ''hi'' @ [CHR 0x22, CHR 0x22] @ '', bye''"

text \<open>A value with quotes and no comma: \<^verbatim>\<open>say "hi"\<close>.\<close>

definition say_hi :: string where
  "say_hi = ''say '' @ [CHR 0x22] @ ''hi'' @ [CHR 0x22]"

text \<open>
  A world with three tables: T1 has one record holding the value above, T2 has two
  records with different fields, the fetch of T3 fails, and every other table is empty.
  No storage call raises.
\<close>

definition example_records :: "airtable_record list" where
  "example_records =
     [\<lparr>rec_id = ''rec1'', rec_fields = [(''Name'', VStr ''Ann''), (''Age'', VInt 41)]\<rparr>,
      \<lparr>rec_id = ''rec2'', rec_fields = [(''Name'', VStr ''Bob''), (''City'', VStr ''Oslo, NO'')]\<rparr>]"

definition example_env :: collaborators where
  "example_env =
     \<lparr>str_hash = length,
      get_all = (\<lambda>b t k.
         if t = ''T1'' then Inr [\<lparr>rec_id = ''rec0'', rec_fields = [(''Quote'', VStr he_said)]\<rparr>]
         else if t = ''T2'' then Inr example_records
         else if t = ''T3'' then Inl (RemoteError ''boom'')
         else Inr []),
      import_raises = (\<lambda>st t csv_data. None),
      find_value_by_row_and_column = (\<lambda>st t c v tc. Inr None),
      storage_execute_sql_query = (\<lambda>st t q. Inr None)\<rparr>"

definition example_manager :: "string \<Rightarrow> storage_ref option \<Rightarrow> csv_manager" where
  "example_manager t st =
     \<lparr>m_oid = 0, m_base_id = ''base'', m_table_name = t, m_api_key = ''key'',
      m_sqlite_storage = st\<rparr>"

text \<open>A coordinator for the three tables, sharing storage 7.\<close>

definition example_coordinator :: multi_manager where
  "example_coordinator = init ''key'' ''base'' (Some [''T1'', ''T3'', ''T2'']) (Some 7) 0"

section \<open>Normalisation and serialisation\<close>

lemma set_fieldnames_of:
  "set (fieldnames_of h records) = (\<Union>r\<in>set records. fst ` set (rec_fields r))"
  by (auto simp: fieldnames_of_def)

lemma distinct_fieldnames_of: "distinct (fieldnames_of h records)"
  by (simp add: fieldnames_of_def)

lemma keys_record_comma_check:
  "map fst (rec_fields (record_comma_check r)) = map fst (rec_fields r)"
  by (induction "rec_fields r") (auto simp: record_comma_check_def split: prod.splits)

text \<open>No row has a key outside the field names, so \<open>writerow\<close> never raises.\<close>

lemma write_rows_total:
  assumes "\<forall>r\<in>set rs. fst ` set (rec_fields r) \<subseteq> set fns"
  shows "write_rows fns rs =
           Inr (map (\<lambda>r. map (\<lambda>key. case map_of (rec_fields (record_comma_check r)) key of
                                     None \<Rightarrow> VStr [] | Some v \<Rightarrow> v) fns) rs)"
  using assms
proof (induction rs)
  case Nil
  show ?case by simp
next
  case (Cons r rs)
  have "set (map fst (rec_fields (record_comma_check r))) \<subseteq> set fns"
    using Cons.prems by (simp add: keys_record_comma_check)
  then have "dict_to_list fns (rec_fields (record_comma_check r)) =
      Inr (map (\<lambda>key. case map_of (rec_fields (record_comma_check r)) key of
                        None \<Rightarrow> VStr [] | Some v \<Rightarrow> v) fns)"
    unfolding dict_to_list_def by auto
  with Cons show ?case by simp
qed

lemma write_rows_fieldnames:
  "write_rows (fieldnames_of h records) records =
     Inr (map (\<lambda>r. map (\<lambda>key. case map_of (rec_fields (record_comma_check r)) key of
                               None \<Rightarrow> VStr [] | Some v \<Rightarrow> v) (fieldnames_of h records)) records)"
  by (rule write_rows_total) (auto simp: set_fieldnames_of)

lemma filter_replace_quote:
  "filter (\<lambda>c. c \<noteq> CHR 0x22) (replace_quote s) = filter (\<lambda>c. c \<noteq> CHR 0x22) s"
  by (induction s) (auto simp: replace_quote_def)

lemma count_replace_quote:
  "length (filter (\<lambda>c. c = CHR 0x22) (replace_quote s)) = 2 * length (filter (\<lambda>c. c = CHR 0x22) s)"
  by (induction s) (auto simp: replace_quote_def)

text \<open>
  C4: when the fetch returns no record, \<open>update_csv_from_airtable\<close> returns None, which
  is no exception, and calls the storage not at all: the log of storage calls is
  unchanged.
\<close>

theorem empty_fetch_is_noop:
  assumes "get_all env (m_base_id m) (m_table_name m) (m_api_key m) = Inr []"
  shows "update_csv_from_airtable env m log = (Inr None, log)
         \<and> (\<forall>e. fst (update_csv_from_airtable env m log) \<noteq> Inl e)"
  using assms by (simp add: update_csv_from_airtable_def)

theorem empty_fetch_is_noop_witness:
  "get_all example_env ''base'' ''T9'' ''key'' = Inr []
   \<and> update_csv_from_airtable example_env (example_manager ''T9'' (Some 7)) [(7, ''T9'', ''old'')]
       = (Inr None, [(7, ''T9'', ''old'')])"
  using empty_fetch_is_noop [of example_env "example_manager ''T9'' (Some 7)" "[(7, ''T9'', ''old'')]"]
  by (simp add: example_env_def example_manager_def)

text \<open>
  C10: a manager without storage whose fetch returns at least one record returns the
  success message naming its table, and the log of storage calls is unchanged.
\<close>

theorem success_without_storage:
  assumes "m_sqlite_storage m = None"
    and "get_all env (m_base_id m) (m_table_name m) (m_api_key m) = Inr records"
    and "records \<noteq> []"
  shows "update_csv_from_airtable env m log =
           (Inr (Some (''Successfully updated DB from Airtable for table '' @ m_table_name m @ ''.'')), log)"
  using assms
  by (simp add: update_csv_from_airtable_def Let_def write_rows_fieldnames success_message_def)

theorem success_without_storage_witness:
  "m_sqlite_storage (example_manager ''T2'' None) = None
   \<and> get_all example_env ''base'' ''T2'' ''key'' = Inr example_records
   \<and> example_records \<noteq> []
   \<and> update_csv_from_airtable example_env (example_manager ''T2'' None) [] =
       (Inr (Some ''Successfully updated DB from Airtable for table T2.''), [])"
  using success_without_storage [of "example_manager ''T2'' None" example_env example_records "[]"]
  by (simp add: example_env_def example_manager_def example_records_def)

text \<open>
  C2, as stated, fails: a string value with quotes and no comma is left as it is, its
  quotes are not doubled.
\<close>

theorem quotes_without_comma_counterexample:
  "rec_fields (record_comma_check \<lparr>rec_id = ''rec0'', rec_fields = [(''Note'', VStr say_hi)]\<rparr>)
     = [(''Note'', VStr say_hi)]
   \<and> CHR 0x22 \<in> set say_hi
   \<and> replace_quote say_hi \<noteq> say_hi"
  by (simp add: record_comma_check_def say_hi_def replace_quote_def)

text \<open>
  C2, amended: \<open>record_comma_check\<close> keeps the keys and their order; a value that is a
  string containing a comma has every double quote doubled and is otherwise unchanged
  (every other character, commas included, stays in place, and no quote is put around the
  value); a string without a comma and a value that is no string are left untouched.
\<close>

theorem record_comma_check_values:
  "map fst (rec_fields (record_comma_check r)) = map fst (rec_fields r)
   \<and> (\<forall>i<length (rec_fields r).
         (case snd (rec_fields r ! i) of
            VStr s \<Rightarrow>
              if CHR '','' \<in> set s
              then \<exists>s'. snd (rec_fields (record_comma_check r) ! i) = VStr s'
                     \<and> s' = concat (map (\<lambda>c. if c = CHR 0x22 then [c, c] else [c]) s)
                     \<and> filter (\<lambda>c. c \<noteq> CHR 0x22) s' = filter (\<lambda>c. c \<noteq> CHR 0x22) s
                     \<and> length (filter (\<lambda>c. c = CHR 0x22) s') = 2 * length (filter (\<lambda>c. c = CHR 0x22) s)
              else snd (rec_fields (record_comma_check r) ! i) = VStr s
          | v \<Rightarrow> snd (rec_fields (record_comma_check r) ! i) = v))"
proof (intro conjI allI impI)
  show "map fst (rec_fields (record_comma_check r)) = map fst (rec_fields r)"
    by (rule keys_record_comma_check)
next
  fix i
  assume i: "i < length (rec_fields r)"
  have v: "snd (rec_fields (record_comma_check r) ! i) = comma_check_value (snd (rec_fields r ! i))"
    using i by (simp add: record_comma_check_def split: prod.splits)
  have q: "replace_quote s = concat (map (\<lambda>c. if c = CHR 0x22 then [c, c] else [c]) s)" for s
    unfolding replace_quote_def by (rule arg_cong [where f = concat]) auto
  show "case snd (rec_fields r ! i) of
          VStr s \<Rightarrow>
            if CHR '','' \<in> set s
            then \<exists>s'. snd (rec_fields (record_comma_check r) ! i) = VStr s'
                   \<and> s' = concat (map (\<lambda>c. if c = CHR 0x22 then [c, c] else [c]) s)
                   \<and> filter (\<lambda>c. c \<noteq> CHR 0x22) s' = filter (\<lambda>c. c \<noteq> CHR 0x22) s
                   \<and> length (filter (\<lambda>c. c = CHR 0x22) s') = 2 * length (filter (\<lambda>c. c = CHR 0x22) s)
            else snd (rec_fields (record_comma_check r) ! i) = VStr s
        | v \<Rightarrow> snd (rec_fields (record_comma_check r) ! i) = v"
  proof (cases "snd (rec_fields r ! i)")
    case (VStr s)
    show ?thesis
      using v VStr filter_replace_quote [of s] count_replace_quote [of s] q [of s]
      by simp
  qed (simp_all add: v)
qed

theorem record_comma_check_values_witness:
  "(1::nat) < length [(''Quote'', VStr he_said), (''Note'', VStr say_hi), (''Age'', VInt 41)]
   \<and> CHR '','' \<in> set he_said \<and> CHR '','' \<notin> set say_hi
   \<and> rec_fields (record_comma_check
        \<lparr>rec_id = ''rec0'',
         rec_fields = [(''Quote'', VStr he_said), (''Note'', VStr say_hi), (''Age'', VInt 41)]\<rparr>)
       = [(''Quote'', VStr he_said_doubled), (''Note'', VStr say_hi), (''Age'', VInt 41)]"
  using record_comma_check_values
    [of "\<lparr>rec_id = ''rec0'',
          rec_fields = [(''Quote'', VStr he_said), (''Note'', VStr say_hi), (''Age'', VInt 41)]\<rparr>"]
  by (simp add: record_comma_check_def he_said_def he_said_doubled_def say_hi_def replace_quote_def)

text \<open>
  C1 at its own example. The fetched value \<^verbatim>\<open>He said "hi", bye\<close> is synchronised into
  storage 7. \<open>record_comma_check\<close> doubles its quotes and the csv writer, which quotes
  the field since it holds a comma, doubles them once more; reading the stored text back
  with the csv reader gives the header and one row whose value has every quote twice, not
  the fetched value.
\<close>

theorem escaping_round_trip_example:
  "get_all example_env ''base'' ''T1'' ''key''
     = Inr [\<lparr>rec_id = ''rec0'', rec_fields = [(''Quote'', VStr he_said)]\<rparr>]
   \<and> map (\<lambda>(st, t, csv_data). (st, t, csv_reader csv_data))
       (snd (update_csv_from_airtable example_env (example_manager ''T1'' (Some 7)) []))
     = [(7, ''T1'', Inr [[''Quote''], [he_said_doubled]])]
   \<and> he_said_doubled \<noteq> he_said"
  by (simp add: example_env_def example_manager_def update_csv_from_airtable_def Let_def
      fieldnames_of_def dict_to_list_def record_comma_check_def csv_text_def writer_writerow_def
      join_append_def needs_quote_def replace_quote_def he_said_def he_said_doubled_def
      csv_reader_def parse_reset_def parse_start_field_def parse_save_field_def
      parse_add_char_def is_newline_def)

section \<open>Reading back what the writer wrote\<close>

text \<open>The reader, line by line, against the reader, character by character.\<close>

declare parse_process_char.simps [simp del]

lemma feed_append:
  "feed r (a @ b) = (case feed r a of Inl e \<Rightarrow> Inl e | Inr r' \<Rightarrow> feed r' b)"
  by (induction a arbitrary: r) (simp_all split: sum.splits)

lemma parse_chars_feed:
  "parse_chars r l = (case feed r l of Inl e \<Rightarrow> Inl e | Inr r' \<Rightarrow> parse_process_char r' None)"
  by (induction l arbitrary: r) (simp_all split: sum.splits)

lemma split_lines_first:
  "acc \<noteq> [] \<Longrightarrow> \<exists>pre rest. split_lines acc t = (acc @ pre) # rest"
proof (induction t arbitrary: acc)
  case Nil
  then show ?case by simp
next
  case (Cons c cs)
  show ?case
  proof (cases "c = CHR 0x0A")
    case True
    then show ?thesis by simp
  next
    case False
    from Cons.IH [of "acc @ [c]"] obtain pre rest where
      "split_lines (acc @ [c]) cs = ((acc @ [c]) @ pre) # rest"
      by auto
    with False show ?thesis by simp
  qed
qed

lemma read_rows_feed_error:
  assumes "feed r acc = Inl e"
  shows "read_rows r (split_lines acc t) = Inl e"
proof -
  from assms have "acc \<noteq> []" by auto
  then obtain pre rest where s: "split_lines acc t = (acc @ pre) # rest"
    using split_lines_first by blast
  have "parse_chars r (acc @ pre) = Inl e"
    using assms by (simp add: parse_chars_feed feed_append)
  then show ?thesis by (simp add: s)
qed

lemma read_rows_scan:
  assumes "feed r acc = Inr r1"
    and "t = [] \<longrightarrow> acc = []"
    and "t \<noteq> [] \<longrightarrow> last t = CHR 0x0A"
  shows "read_rows r (split_lines acc t) = scan r1 t"
  using assms
proof (induction t arbitrary: r acc r1)
  case Nil
  then show ?case by simp
next
  case (Cons c cs)
  show ?case
  proof (cases "c = CHR 0x0A")
    case False
    with Cons.prems(3) have cs: "cs \<noteq> []" by auto
    show ?thesis
    proof (cases "parse_process_char r1 (Some c)")
      case (Inl e)
      then have "feed r (acc @ [c]) = Inl e"
        using Cons.prems(1) by (simp add: feed_append)
      then have "read_rows r (split_lines (acc @ [c]) cs) = Inl e"
        by (rule read_rows_feed_error)
      with False Inl show ?thesis by simp
    next
      case (Inr r2)
      then have "feed r (acc @ [c]) = Inr r2"
        using Cons.prems(1) by (simp add: feed_append)
      then have "read_rows r (split_lines (acc @ [c]) cs) = scan r2 cs"
        using cs Cons.prems(3) by (intro Cons.IH) simp_all
      with False Inr show ?thesis by simp
    qed
  next
    case True
    have l: "cs \<noteq> [] \<longrightarrow> last cs = CHR 0x0A"
      using Cons.prems(3) by (simp split: if_splits)
    have ih: "read_rows x (split_lines [] cs) = scan x cs" for x
      using l by (intro Cons.IH) simp_all
    have p: "parse_chars r (acc @ [c]) =
        (case parse_process_char r1 (Some c) of
           Inl e \<Rightarrow> Inl e | Inr r2 \<Rightarrow> parse_process_char r2 None)"
      using Cons.prems(1) by (simp add: parse_chars_feed feed_append split: sum.splits)
    show ?thesis
    proof (cases "parse_process_char r1 (Some c)")
      case (Inl e)
      with True p show ?thesis by simp
    next
      case r2: (Inr r2)
      show ?thesis
      proof (cases "parse_process_char r2 None")
        case (Inl e)
        with True p r2 show ?thesis by simp
      next
        case (Inr r3)
        with True p r2 show ?thesis by (simp add: ih)
      qed
    qed
  qed
qed

text \<open>One step of the machine, by state.\<close>

lemma process_at_start:
  assumes "state r = START_FIELD \<or> (state r = START_RECORD \<and> \<not> is_newline c)"
  shows "parse_process_char r (Some c) = Inr (parse_start_field r (Some c))"
  using assms by (auto simp: parse_process_char.simps)

lemma process_in_field:
  assumes "state r = IN_FIELD"
  shows "parse_process_char r (Some c) =
           Inr (if is_newline c then parse_save_field EAT_CRNL r
                else if c = CHR '','' then parse_save_field START_FIELD r
                else parse_add_char IN_FIELD c r)"
  using assms by (simp add: parse_process_char.simps)

lemma process_in_quoted_field:
  assumes "state r = IN_QUOTED_FIELD"
  shows "parse_process_char r (Some c) =
           Inr (if c = CHR 0x22 then r\<lparr>state := QUOTE_IN_QUOTED_FIELD\<rparr>
                else parse_add_char IN_QUOTED_FIELD c r)"
    and "parse_process_char r None = Inr r"
  using assms by (simp_all add: parse_process_char.simps)

lemma process_quote_in_quoted_field:
  assumes "state r = QUOTE_IN_QUOTED_FIELD"
  shows "parse_process_char r (Some c) =
           Inr (if c = CHR 0x22 then parse_add_char IN_QUOTED_FIELD c r
                else if c = CHR '','' then parse_save_field START_FIELD r
                else if is_newline c then parse_save_field EAT_CRNL r
                else parse_add_char IN_FIELD c r)"
  using assms by (simp add: parse_process_char.simps)

lemma process_eat_crnl:
  assumes "state r = EAT_CRNL"
  shows "parse_process_char r (Some (CHR 0x0A)) = Inr r"
    and "parse_process_char r None = Inr (r\<lparr>state := START_RECORD\<rparr>)"
  using assms by (simp_all add: parse_process_char.simps is_newline_def)

lemma process_after_add_quoted:
  "parse_process_char (parse_add_char IN_QUOTED_FIELD c r) None =
     Inr (parse_add_char IN_QUOTED_FIELD c r)"
  by (rule process_in_quoted_field(2)) (simp add: parse_add_char_def)

lemma state_parse_add_char: "state (parse_add_char st c r) = st"
  by (simp add: parse_add_char_def)

lemma needs_quote_iff:
  "needs_quote c \<longleftrightarrow> c = CHR '','' \<or> c = CHR 0x22 \<or> is_newline c"
  by (auto simp: needs_quote_def is_newline_def)

text \<open>A field that the writer left without quotes.\<close>

lemma scan_plain_chars:
  assumes "state r = IN_FIELD" and "\<forall>c\<in>set s. \<not> needs_quote c"
  shows "scan r (s @ u) = scan (r\<lparr>field := field r @ s\<rparr>) u"
  using assms
proof (induction s arbitrary: r)
  case Nil
  show ?case by simp
next
  case (Cons c s)
  have c: "\<not> is_newline c" "c \<noteq> CHR '',''" "c \<noteq> CHR 0x0A"
    using Cons.prems(2) by (auto simp: needs_quote_iff is_newline_def)
  have "scan r ((c # s) @ u) = scan (parse_add_char IN_FIELD c r) (s @ u)"
    using c by (simp add: process_in_field [OF Cons.prems(1)])
  also have "\<dots> = scan ((parse_add_char IN_FIELD c r)\<lparr>field := field (parse_add_char IN_FIELD c r) @ s\<rparr>) u"
    using Cons.prems(2) by (intro Cons.IH) (simp_all add: parse_add_char_def)
  also have "(parse_add_char IN_FIELD c r)\<lparr>field := field (parse_add_char IN_FIELD c r) @ s\<rparr>
      = r\<lparr>field := field r @ c # s\<rparr>"
    using Cons.prems(1) by (simp add: parse_add_char_def)
  finally show ?case .
qed

lemma scan_plain_field:
  assumes "state r = START_FIELD \<or> state r = START_RECORD"
    and "\<forall>c\<in>set s. \<not> needs_quote c" and "s \<noteq> []"
  shows "scan r (s @ u) = scan (r\<lparr>state := IN_FIELD, field := field r @ s\<rparr>) u"
proof -
  from assms(3) obtain c s' where s: "s = c # s'"
    by (cases s) auto
  have c: "\<not> is_newline c" "c \<noteq> CHR '',''" "c \<noteq> CHR 0x0A" "c \<noteq> CHR 0x22"
    using assms(2) unfolding s by (auto simp: needs_quote_iff is_newline_def)
  have p: "parse_process_char r (Some c) = Inr (parse_add_char IN_FIELD c r)"
    using assms(1) c by (subst process_at_start) (auto simp: parse_start_field_def)
  have "scan r (s @ u) = scan (parse_add_char IN_FIELD c r) (s' @ u)"
    using c by (simp add: s p)
  also have "\<dots> = scan ((parse_add_char IN_FIELD c r)\<lparr>field := field (parse_add_char IN_FIELD c r) @ s'\<rparr>) u"
    using assms(2) unfolding s by (intro scan_plain_chars) (simp_all add: parse_add_char_def)
  also have "(parse_add_char IN_FIELD c r)\<lparr>field := field (parse_add_char IN_FIELD c r) @ s'\<rparr>
      = r\<lparr>state := IN_FIELD, field := field r @ s\<rparr>"
    by (simp add: parse_add_char_def s)
  finally show ?thesis .
qed

text \<open>A field that the writer put in quotes, its quotes doubled.\<close>

lemma scan_quoted_chars:
  assumes "state r = IN_QUOTED_FIELD"
  shows "scan r (replace_quote s @ u) = scan (r\<lparr>field := field r @ s\<rparr>) u"
  using assms
proof (induction s arbitrary: r)
  case Nil
  show ?case by (simp add: replace_quote_def)
next
  case (Cons c s)
  let ?r' = "parse_add_char IN_QUOTED_FIELD c r"
  have st: "state ?r' = IN_QUOTED_FIELD"
    by (simp add: parse_add_char_def)
  have step: "scan r (replace_quote (c # s) @ u) = scan ?r' (replace_quote s @ u)"
  proof (cases "c = CHR 0x22")
    case True
    have "scan r (replace_quote (c # s) @ u) =
        scan (r\<lparr>state := QUOTE_IN_QUOTED_FIELD\<rparr>) (CHR 0x22 # replace_quote s @ u)"
      using True by (simp add: replace_quote_def process_in_quoted_field(1) [OF Cons.prems])
    also have "\<dots> = scan (parse_add_char IN_QUOTED_FIELD (CHR 0x22) (r\<lparr>state := QUOTE_IN_QUOTED_FIELD\<rparr>))
        (replace_quote s @ u)"
      by (simp add: process_quote_in_quoted_field)
    also have "parse_add_char IN_QUOTED_FIELD (CHR 0x22) (r\<lparr>state := QUOTE_IN_QUOTED_FIELD\<rparr>) = ?r'"
      using True by (simp add: parse_add_char_def)
    finally show ?thesis .
  next
    case False
    show ?thesis
    proof (cases "c = CHR 0x0A")
      case True
      then show ?thesis
        by (simp add: replace_quote_def process_in_quoted_field(1) [OF Cons.prems]
            process_after_add_quoted state_parse_add_char)
    next
      case nl: False
      with False show ?thesis
        by (simp add: replace_quote_def process_in_quoted_field(1) [OF Cons.prems])
    qed
  qed
  also have "\<dots> = scan (?r'\<lparr>field := field ?r' @ s\<rparr>) u"
    using st by (rule Cons.IH)
  also have "?r'\<lparr>field := field ?r' @ s\<rparr> = r\<lparr>field := field r @ c # s\<rparr>"
    using Cons.prems by (simp add: parse_add_char_def)
  finally show ?case .
qed

lemma scan_quoted_field:
  assumes "state r = START_FIELD \<or> state r = START_RECORD"
  shows "scan r (CHR 0x22 # replace_quote s @ CHR 0x22 # u) =
           scan (r\<lparr>state := QUOTE_IN_QUOTED_FIELD, field := field r @ s\<rparr>) u"
proof -
  have p: "parse_process_char r (Some (CHR 0x22)) = Inr (r\<lparr>state := IN_QUOTED_FIELD\<rparr>)"
    using assms by (subst process_at_start) (auto simp: parse_start_field_def is_newline_def)
  have "scan r (CHR 0x22 # replace_quote s @ CHR 0x22 # u) =
      scan (r\<lparr>state := IN_QUOTED_FIELD\<rparr>) (replace_quote s @ CHR 0x22 # u)"
    by (simp add: p)
  also have "\<dots> = scan (r\<lparr>state := IN_QUOTED_FIELD, field := field r @ s\<rparr>) (CHR 0x22 # u)"
    by (subst scan_quoted_chars) simp_all
  also have "\<dots> = scan ((r\<lparr>state := IN_QUOTED_FIELD, field := field r @ s\<rparr>)
                          \<lparr>state := QUOTE_IN_QUOTED_FIELD\<rparr>) u"
    by (simp add: process_in_quoted_field(1))
  also have "(r\<lparr>state := IN_QUOTED_FIELD, field := field r @ s\<rparr>)\<lparr>state := QUOTE_IN_QUOTED_FIELD\<rparr>
      = r\<lparr>state := QUOTE_IN_QUOTED_FIELD, field := field r @ s\<rparr>"
    by (cases r) simp
  finally show ?thesis .
qed

declare scan.simps [simp del]

lemma scan_step:
  assumes "parse_process_char r (Some c) = Inr r'" and "c \<noteq> CHR 0x0A"
  shows "scan r (c # u) = scan r' u"
  using assms by (simp add: scan.simps)

lemma scan_line_end:
  assumes "parse_process_char r (Some (CHR 0x0A)) = Inr r'"
    and "parse_process_char r' None = Inr r''" and "state r'' = START_RECORD"
  shows "scan r (CHR 0x0A # u) = map_sum (\<lambda>e. e) ((#) (row r'')) (scan parse_reset u)"
  using assms by (cases "scan parse_reset u") (simp_all add: scan.simps)

text \<open>The text of one field, whatever follows it.\<close>

lemma scan_field:
  assumes "state r = START_FIELD \<or> state r = START_RECORD" and "field r = []"
  shows "\<exists>r'. (\<forall>u. scan r (join_append s @ u) = scan r' u)
            \<and> field r' = s \<and> row r' = row r
            \<and> (state r' = IN_FIELD \<or> state r' = QUOTE_IN_QUOTED_FIELD \<or> (s = [] \<and> r' = r))"
proof (cases "\<exists>c\<in>set s. needs_quote c")
  case True
  let ?r' = "r\<lparr>state := QUOTE_IN_QUOTED_FIELD, field := field r @ s\<rparr>"
  have "\<forall>u. scan r (join_append s @ u) = scan ?r' u"
    using True scan_quoted_field [OF assms(1), of s] by (simp add: join_append_def)
  then show ?thesis
    using assms(2) by (intro exI [of _ ?r']) simp
next
  case False
  show ?thesis
  proof (cases "s = []")
    case True
    then show ?thesis
      using assms(2) by (intro exI [of _ r]) (simp add: join_append_def)
  next
    case ne: False
    let ?r' = "r\<lparr>state := IN_FIELD, field := field r @ s\<rparr>"
    have "\<forall>u. scan r (join_append s @ u) = scan ?r' u"
      using False ne scan_plain_field [OF assms(1), of s] by (simp add: join_append_def)
    then show ?thesis
      using assms(2) by (intro exI [of _ ?r']) simp
  qed
qed

text \<open>The delimiter and the line terminator after a field.\<close>

lemma scan_comma:
  assumes "state r = IN_FIELD \<or> state r = QUOTE_IN_QUOTED_FIELD
           \<or> state r = START_FIELD \<or> state r = START_RECORD"
  shows "scan r (CHR '','' # u) = scan (parse_save_field START_FIELD r) u"
proof -
  have "parse_process_char r (Some (CHR '','')) = Inr (parse_save_field START_FIELD r)"
    using assms
    by (auto simp: process_in_field process_quote_in_quoted_field process_at_start
        parse_start_field_def is_newline_def)
  then show ?thesis by (rule scan_step) simp
qed

lemma scan_crlf:
  assumes "state r = IN_FIELD \<or> state r = QUOTE_IN_QUOTED_FIELD \<or> state r = START_FIELD"
  shows "scan r (CHR 0x0D # CHR 0x0A # u) =
           map_sum (\<lambda>e. e) ((#) (row r @ [field r])) (scan parse_reset u)"
proof -
  let ?r2 = "parse_save_field EAT_CRNL r"
  have p: "parse_process_char r (Some (CHR 0x0D)) = Inr ?r2"
    using assms
    by (auto simp: process_in_field process_quote_in_quoted_field process_at_start
        parse_start_field_def is_newline_def)
  have s: "state ?r2 = EAT_CRNL"
    by (simp add: parse_save_field_def)
  have w: "row (?r2\<lparr>state := START_RECORD\<rparr>) = row r @ [field r]"
    by (simp add: parse_save_field_def)
  have "scan r (CHR 0x0D # CHR 0x0A # u) = scan ?r2 (CHR 0x0A # u)"
    using p by (rule scan_step) simp
  also have "\<dots> = map_sum (\<lambda>e. e) ((#) (row (?r2\<lparr>state := START_RECORD\<rparr>))) (scan parse_reset u)"
    using process_eat_crnl [OF s] by (rule scan_line_end) simp
  finally show ?thesis
    by (simp only: w)
qed

lemma scan_crlf_no_field:
  assumes "state r = START_RECORD"
  shows "scan r (CHR 0x0D # CHR 0x0A # u) = map_sum (\<lambda>e. e) ((#) (row r)) (scan parse_reset u)"
proof -
  let ?r2 = "r\<lparr>state := EAT_CRNL\<rparr>"
  have p: "parse_process_char r (Some (CHR 0x0D)) = Inr ?r2"
    using assms by (simp add: parse_process_char.simps is_newline_def)
  have s: "state ?r2 = EAT_CRNL"
    by simp
  have w: "row (?r2\<lparr>state := START_RECORD\<rparr>) = row r"
    by simp
  have "scan r (CHR 0x0D # CHR 0x0A # u) = scan ?r2 (CHR 0x0A # u)"
    using p by (rule scan_step) simp
  also have "\<dots> = map_sum (\<lambda>e. e) ((#) (row (?r2\<lparr>state := START_RECORD\<rparr>))) (scan parse_reset u)"
    using process_eat_crnl [OF s] by (rule scan_line_end) simp
  finally show ?thesis
    by (simp only: w)
qed

text \<open>The fields of a row, after the first.\<close>

lemma scan_fields:
  assumes "state r = START_FIELD" and "field r = []" and "cells \<noteq> []"
  shows "scan r (join_fields (map join_append cells) @ CHR 0x0D # CHR 0x0A # u) =
           map_sum (\<lambda>e. e) ((#) (row r @ cells)) (scan parse_reset u)"
  using assms
proof (induction cells arbitrary: r)
  case Nil
  then show ?case by simp
next
  case (Cons s cells)
  from scan_field [of r s] Cons.prems obtain r' where
    r': "\<forall>u. scan r (join_append s @ u) = scan r' u" "field r' = s" "row r' = row r"
      "state r' = IN_FIELD \<or> state r' = QUOTE_IN_QUOTED_FIELD \<or> (s = [] \<and> r' = r)"
    by blast
  have st: "state r' = IN_FIELD \<or> state r' = QUOTE_IN_QUOTED_FIELD \<or> state r' = START_FIELD"
    using r'(4) Cons.prems(1) by auto
  show ?case
  proof (cases cells)
    case Nil
    have "scan r (join_fields (map join_append (s # cells)) @ CHR 0x0D # CHR 0x0A # u) =
        scan r' (CHR 0x0D # CHR 0x0A # u)"
      using r'(1) Nil by simp
    then show ?thesis
      using scan_crlf [OF st, of u] r'(2,3) Nil by simp
  next
    case (Cons s2 cells2)
    let ?r2 = "parse_save_field START_FIELD r'"
    have "scan r (join_fields (map join_append (s # cells)) @ CHR 0x0D # CHR 0x0A # u) =
        scan r' (CHR '','' # join_fields (map join_append cells) @ CHR 0x0D # CHR 0x0A # u)"
      using r'(1) Cons by simp
    also have "\<dots> = scan ?r2 (join_fields (map join_append cells) @ CHR 0x0D # CHR 0x0A # u)"
      using st by (intro scan_comma) auto
    also have "\<dots> = map_sum (\<lambda>e. e) ((#) (row ?r2 @ cells)) (scan parse_reset u)"
      using Cons by (intro Cons.IH) (simp_all add: parse_save_field_def)
    finally show ?thesis
      using r'(2,3) by (simp add: parse_save_field_def)
  qed
qed

text \<open>The first field of a row is read from the start of a record.\<close>

lemma scan_record_start:
  assumes "state r = START_RECORD" and "\<not> is_newline c"
  shows "scan r (c # u) = scan (r\<lparr>state := START_FIELD\<rparr>) (c # u)"
proof -
  have "parse_process_char r (Some c) = parse_process_char (r\<lparr>state := START_FIELD\<rparr>) (Some c)"
    using assms
    by (simp add: process_at_start parse_start_field_def parse_save_field_def parse_add_char_def)
  then show ?thesis by (simp add: scan.simps)
qed

lemma row_text_starts:
  assumes "cells \<noteq> []" and "cells \<noteq> [[]]"
  shows "\<exists>c t. join_fields (map join_append cells) @ v = c # t \<and> \<not> is_newline c"
proof -
  from assms(1) obtain s rest where c: "cells = s # rest"
    by (cases cells) auto
  show ?thesis
  proof (cases "\<exists>c\<in>set s. needs_quote c")
    case True
    then have "join_append s = CHR 0x22 # replace_quote s @ [CHR 0x22]"
      by (simp add: join_append_def)
    then show ?thesis
      unfolding c by (cases rest) (simp_all add: is_newline_def)
  next
    case False
    then have j: "join_append s = s"
      by (simp add: join_append_def)
    show ?thesis
    proof (cases s)
      case Nil
      with assms(2) c obtain s2 rest2 where "rest = s2 # rest2"
        by (cases rest) auto
      then show ?thesis
        unfolding c using Nil j by (simp add: is_newline_def)
    next
      case (Cons a s')
      with False have "\<not> is_newline a"
        by (simp add: needs_quote_iff)
      then show ?thesis
        unfolding c using Cons j by (cases rest) simp_all
    qed
  qed
qed

lemma scan_row:
  "scan parse_reset (writer_writerow cells @ u) = map_sum (\<lambda>e. e) ((#) cells) (scan parse_reset u)"
proof -
  consider "cells = []" | "cells = [[]]" | "cells \<noteq> []" "cells \<noteq> [[]]"
    by blast
  then show ?thesis
  proof cases
    case 1
    have "state parse_reset = START_RECORD" "row parse_reset = []"
      by (simp_all add: parse_reset_def)
    then show ?thesis
      using 1 by (simp add: writer_writerow_def scan_crlf_no_field)
  next
    case 2
    let ?r = "parse_reset\<lparr>state := QUOTE_IN_QUOTED_FIELD, field := field parse_reset @ []\<rparr>"
    have "state parse_reset = START_FIELD \<or> state parse_reset = START_RECORD"
      by (simp add: parse_reset_def)
    from scan_quoted_field [OF this, of "[]" "CHR 0x0D # CHR 0x0A # u"]
    have "scan parse_reset (writer_writerow cells @ u) = scan ?r (CHR 0x0D # CHR 0x0A # u)"
      using 2 by (simp add: writer_writerow_def replace_quote_def)
    also have "\<dots> = map_sum (\<lambda>e. e) ((#) (row ?r @ [field ?r])) (scan parse_reset u)"
      by (rule scan_crlf) simp
    also have "row ?r @ [field ?r] = cells"
      using 2 by (simp add: parse_reset_def)
    finally show ?thesis .
  next
    case 3
    let ?t = "join_fields (map join_append cells) @ CHR 0x0D # CHR 0x0A # u"
    let ?r = "parse_reset\<lparr>state := START_FIELD\<rparr>"
    from row_text_starts [OF 3] obtain c t where ct: "?t = c # t" "\<not> is_newline c"
      by blast
    have "scan parse_reset ?t = scan ?r ?t"
      unfolding ct(1) using ct(2) by (intro scan_record_start) (simp add: parse_reset_def)
    also have "\<dots> = map_sum (\<lambda>e. e) ((#) (row ?r @ cells)) (scan parse_reset u)"
      using 3(1) by (intro scan_fields) (simp_all add: parse_reset_def)
    also have "row ?r @ cells = cells"
      by (simp add: parse_reset_def)
    finally show ?thesis
      using 3(2) by (simp add: writer_writerow_def)
  qed
qed

lemma scan_rows: "scan parse_reset (concat (map writer_writerow css)) = Inr css"
proof (induction css)
  case Nil
  show ?case by (simp add: parse_reset_def scan.simps)
next
  case (Cons cells css)
  then show ?case by (simp add: scan_row)
qed

lemma last_rows_text:
  "concat (map writer_writerow css) \<noteq> [] \<longrightarrow> last (concat (map writer_writerow css)) = CHR 0x0A"
proof (induction css rule: rev_induct)
  case Nil
  show ?case by simp
next
  case (snoc cells css)
  show ?case by (simp add: writer_writerow_def)
qed

text \<open>What the csv reader reads from the text of a header and rows is that header and rows.\<close>

lemma csv_reader_csv_text:
  "csv_reader (csv_text fieldnames rows) = Inr (fieldnames # map (map csv_field_text) rows)"
proof -
  let ?css = "fieldnames # map (map csv_field_text) rows"
  have t: "csv_text fieldnames rows = concat (map writer_writerow ?css)"
    by (simp add: csv_text_def comp_def)
  have "read_rows parse_reset (split_lines [] (concat (map writer_writerow ?css))) =
      scan parse_reset (concat (map writer_writerow ?css))"
    using last_rows_text [of ?css] by (intro read_rows_scan) simp_all
  then show ?thesis
    unfolding csv_reader_def t by (simp only: scan_rows)
qed

text \<open>
  C3: for a non-empty fetch, the storage receives a text which the csv reader reads as a
  header and rows such that the header holds the union of the field names of all records,
  each once (in whatever order the set of names is listed), there is one row per record,
  every row has one value per column, and the value of a column is the text of the
  record's (comma-checked) value of that field, or empty when the record lacks the field.
\<close>

theorem union_of_columns:
  assumes "get_all env (m_base_id m) (m_table_name m) (m_api_key m) = Inr records"
    and "records \<noteq> []"
    and "m_sqlite_storage m = Some st"
  shows "\<exists>csv_data header rows.
           snd (update_csv_from_airtable env m log) = log @ [(st, m_table_name m, csv_data)]
           \<and> csv_reader csv_data = Inr (header # rows)
           \<and> set header = (\<Union>r\<in>set records. fst ` set (rec_fields r))
           \<and> distinct header
           \<and> length rows = length records
           \<and> (\<forall>i<length records.
                 length (rows ! i) = length header
                 \<and> (\<forall>j<length header.
                       rows ! i ! j =
                         csv_field_text
                           (case map_of (rec_fields (record_comma_check (records ! i))) (header ! j) of
                              None \<Rightarrow> VStr [] | Some v \<Rightarrow> v)))"
proof -
  let ?header = "fieldnames_of (str_hash env) records"
  let ?cell = "\<lambda>r key. case map_of (rec_fields (record_comma_check r)) key of
                          None \<Rightarrow> VStr [] | Some v \<Rightarrow> v"
  let ?cells = "map (\<lambda>r. map (?cell r) ?header) records"
  let ?rows = "map (map csv_field_text) ?cells"
  have w: "write_rows ?header records = Inr ?cells"
    by (rule write_rows_fieldnames)
  have "snd (update_csv_from_airtable env m log) =
          log @ [(st, m_table_name m, csv_text ?header ?cells)]"
    using assms w
    by (simp add: update_csv_from_airtable_def Let_def split: option.splits)
  moreover have "csv_reader (csv_text ?header ?cells) = Inr (?header # ?rows)"
    by (rule csv_reader_csv_text)
  moreover have "\<forall>i<length records.
      length (?rows ! i) = length ?header
      \<and> (\<forall>j<length ?header.
            ?rows ! i ! j = csv_field_text (?cell (records ! i) (?header ! j)))"
    by simp
  moreover have "length ?rows = length records"
    by simp
  ultimately show ?thesis
    using set_fieldnames_of [of "str_hash env" records]
      distinct_fieldnames_of [of "str_hash env" records]
    by (intro exI [of _ "csv_text ?header ?cells"] exI [of _ ?header] exI [of _ ?rows]) blast
qed

theorem union_of_columns_witness:
  "get_all example_env ''base'' ''T2'' ''key'' = Inr example_records
   \<and> example_records \<noteq> []
   \<and> m_sqlite_storage (example_manager ''T2'' (Some 7)) = Some 7
   \<and> (\<exists>csv_data header rows.
         snd (update_csv_from_airtable example_env (example_manager ''T2'' (Some 7)) []) =
           [(7, ''T2'', csv_data)]
         \<and> csv_reader csv_data = Inr (header # rows)
         \<and> set header = {''Name'', ''Age'', ''City''}
         \<and> distinct header
         \<and> length rows = 2
         \<and> length (rows ! 0) = length header \<and> length (rows ! 1) = length header)"
proof -
  have a: "get_all example_env (m_base_id (example_manager ''T2'' (Some 7)))
             (m_table_name (example_manager ''T2'' (Some 7)))
             (m_api_key (example_manager ''T2'' (Some 7))) = Inr example_records"
    by (simp add: example_env_def example_manager_def)
  have b: "example_records \<noteq> []"
    by (simp add: example_records_def)
  have c: "m_sqlite_storage (example_manager ''T2'' (Some 7)) = Some 7"
    by (simp add: example_manager_def)
  have l: "length example_records = 2"
    by (simp add: example_records_def)
  have s: "(\<Union>r\<in>set example_records. fst ` set (rec_fields r)) = {''Name'', ''Age'', ''City''}"
    by (auto simp: example_records_def)
  from union_of_columns [OF a b c, of "[]"] obtain csv_data header rows where
    r: "snd (update_csv_from_airtable example_env (example_manager ''T2'' (Some 7)) []) =
          [] @ [(7, m_table_name (example_manager ''T2'' (Some 7)), csv_data)]"
      "csv_reader csv_data = Inr (header # rows)"
      "set header = (\<Union>r\<in>set example_records. fst ` set (rec_fields r))"
      "distinct header"
      "length rows = length example_records"
      "\<forall>i<length example_records. length (rows ! i) = length header"
    by blast
  from r(6) l have "length (rows ! 0) = length header" "length (rows ! 1) = length header"
    by simp_all
  with r(1-5) l s a b c show ?thesis
    by (auto simp: example_manager_def)
qed

section \<open>The coordinator\<close>

lemma lookup_None_iff: "DAList.lookup al k = None \<longleftrightarrow> k \<notin> set (map fst (DAList.impl_of al))"
  by (simp add: DAList.lookup.rep_eq map_of_eq_None_iff)

lemma managers_init_example:
  "DAList.impl_of (managers example_coordinator) =
     [(''T1'', \<lparr>m_oid = 0, m_base_id = ''base'', m_table_name = ''T1'', m_api_key = ''key'',
               m_sqlite_storage = Some 7\<rparr>),
      (''T3'', \<lparr>m_oid = 1, m_base_id = ''base'', m_table_name = ''T3'', m_api_key = ''key'',
               m_sqlite_storage = Some 7\<rparr>),
      (''T2'', \<lparr>m_oid = 2, m_base_id = ''base'', m_table_name = ''T2'', m_api_key = ''key'',
               m_sqlite_storage = Some 7\<rparr>)]"
  by (simp add: example_coordinator_def init_def initialize_managers_def set_manager_def
      new_manager_def DAList.update.rep_eq DAList.empty.rep_eq)

text \<open>
  C5, as stated, fails for the row lookup: the coordinator has no such method, under the
  name of the handle's method (\<open>get_row\<close>) or under the name \<open>lookup_row\<close>, so the
  call raises AttributeError whatever the table name is.
\<close>

theorem coordinator_row_lookup_counterexample:
  "multi_manager_getattr ''get_row''
     = Inl (AttributeError ''AirtableMultiManager object has no attribute get_row'')
   \<and> multi_manager_getattr ''lookup_row''
     = Inl (AttributeError ''AirtableMultiManager object has no attribute lookup_row'')"
  by (simp add: multi_manager_getattr_def multi_manager_attributes_def)

text \<open>
  C5, amended: for a table name that is no key of \<open>managers\<close>, each of \<open>get_value\<close>,
  \<open>execute_sql_query\<close> and \<open>update_csv_from_airtable\<close> of the coordinator returns None
  without raising, and the last one calls the storage not at all.
\<close>

theorem unknown_table_returns_none:
  assumes "table_name \<notin> set (get_available_tables mm)"
  shows "get_value env mm table_name column_containing_reference reference_value target_column
           = Inr None
         \<and> multi_execute_sql_query env mm table_name sql_query = Inr None
         \<and> multi_update_csv_from_airtable env mm table_name log = (Inr None, log)"
proof -
  have "get_manager mm table_name = None"
    using assms by (simp add: get_manager_def get_available_tables_def lookup_None_iff)
  then show ?thesis
    by (simp add: get_value_def multi_execute_sql_query_def multi_update_csv_from_airtable_def)
qed

theorem unknown_table_returns_none_witness:
  "''T4'' \<notin> set (get_available_tables example_coordinator)
   \<and> get_value example_env example_coordinator ''T4'' ''Name'' ''Ann'' ''Age'' = Inr None
   \<and> multi_execute_sql_query example_env example_coordinator ''T4'' ''SELECT 1'' = Inr None
   \<and> multi_update_csv_from_airtable example_env example_coordinator ''T4'' [] = (Inr None, [])"
proof -
  have "''T4'' \<notin> set (get_available_tables example_coordinator)"
    by (simp add: get_available_tables_def managers_init_example)
  from this unknown_table_returns_none [OF this, of example_env "''Name''" "''Ann''" "''Age''" "''SELECT 1''" "[]"]
  show ?thesis by simp
qed

text \<open>
  C9: when the metadata request raises or answers with a status other than 200,
  \<open>get_tables_from_base\<close> returns None (its result type has no exception: all are
  caught); and whenever it returns None, \<open>discover_and_add_tables_from_base\<close> returns the
  empty dict and leaves the coordinator as it was.
\<close>

theorem discovery_failure_swallowed:
  "((\<exists>e. requests_get (base_id mm) = Inl e)
      \<or> (\<exists>response. requests_get (base_id mm) = Inr response \<and> status_code response \<noteq> 200)
     \<longrightarrow> get_tables_from_base requests_get mm None = None)
   \<and> (get_tables_from_base requests_get mm None = None
     \<longrightarrow> discover_and_add_tables_from_base requests_get mm = (DAList.empty, mm))"
  by (auto simp: get_tables_from_base_def discover_and_add_tables_from_base_def)

theorem discovery_failure_swallowed_witness:
  "(\<lambda>b. Inr \<lparr>status_code = 401, json = Inr JsonOther\<rparr>) (base_id example_coordinator)
     = Inr \<lparr>status_code = 401, json = Inr JsonOther\<rparr>
   \<and> status_code \<lparr>status_code = 401, json = Inr JsonOther\<rparr> \<noteq> 200
   \<and> get_tables_from_base (\<lambda>b. Inr \<lparr>status_code = 401, json = Inr JsonOther\<rparr>)
       example_coordinator None = None
   \<and> discover_and_add_tables_from_base (\<lambda>b. Inr \<lparr>status_code = 401, json = Inr JsonOther\<rparr>)
       example_coordinator = (DAList.empty, example_coordinator)"
  using discovery_failure_swallowed
    [of "\<lambda>b. Inr \<lparr>status_code = 401, json = Inr JsonOther\<rparr>" example_coordinator]
  by simp

lemma lookup_set_manager:
  "DAList.lookup (managers (set_manager n mm)) k =
     (if k = n then Some (new_manager mm n) else DAList.lookup (managers mm) k)"
  by (simp add: set_manager_def)

lemma keys_set_manager:
  "map fst (DAList.impl_of (managers (set_manager n mm))) =
     (if n \<in> set (map fst (DAList.impl_of (managers mm)))
      then map fst (DAList.impl_of (managers mm))
      else map fst (DAList.impl_of (managers mm)) @ [n])"
  by (simp add: set_manager_def DAList.update.rep_eq update_keys)

lemma fields_set_manager [simp]:
  "table_names (set_manager n mm) = table_names mm"
  "sqlite_storage (set_manager n mm) = sqlite_storage mm"
  "api_key (set_manager n mm) = api_key mm"
  "base_id (set_manager n mm) = base_id mm"
  "next_oid (set_manager n mm) = Suc (next_oid mm)"
  by (simp_all add: set_manager_def)

lemma table_names_add_table:
  "table_names (add_table n mm) =
     (if n \<in> set (table_names mm) then table_names mm else table_names mm @ [n])"
  by (simp add: add_table_def)

lemma lookup_add_table:
  "DAList.lookup (managers (add_table n mm)) k =
     (if k = n
      then Some \<lparr>m_oid = next_oid mm, m_base_id = base_id mm, m_table_name = n,
                 m_api_key = api_key mm, m_sqlite_storage = Some (sqlite_storage mm)\<rparr>
      else DAList.lookup (managers mm) k)"
  by (simp add: add_table_def lookup_set_manager new_manager_def)

lemma keys_add_table:
  "map fst (DAList.impl_of (managers (add_table n mm))) =
     (if n \<in> set (map fst (DAList.impl_of (managers mm)))
      then map fst (DAList.impl_of (managers mm))
      else map fst (DAList.impl_of (managers mm)) @ [n])"
  by (simp add: add_table_def keys_set_manager)

lemma fields_add_table [simp]:
  "sqlite_storage (add_table n mm) = sqlite_storage mm"
  "api_key (add_table n mm) = api_key mm"
  "base_id (add_table n mm) = base_id mm"
  "next_oid (add_table n mm) = Suc (next_oid mm)"
  by (simp_all add: add_table_def)

lemma count_keys_distinct:
  "distinct xs \<Longrightarrow> count_list xs x = (if x \<in> set xs then 1 else 0)"
  by (induction xs) auto

lemma remove_table_absent:
  "DAList.lookup (managers (snd (remove_table n mm))) n = None"
  by (simp add: remove_table_def)

text \<open>
  C7, as stated, fails for the list of table names: a coordinator constructed with the
  list \<open>X, X\<close> keeps both entries through two calls of \<open>add_table X\<close>, beside the one
  handle.
\<close>

theorem add_table_duplicate_names_counterexample:
  "table_names (add_table ''X'' (add_table ''X'' (init ''key'' ''base'' (Some [''X'', ''X'']) None 0)))
     = [''X'', ''X'']
   \<and> count_list
       (table_names (add_table ''X'' (add_table ''X'' (init ''key'' ''base'' (Some [''X'', ''X'']) None 0))))
       ''X'' = 2
   \<and> get_available_tables
       (add_table ''X'' (add_table ''X'' (init ''key'' ''base'' (Some [''X'', ''X'']) None 0)))
     = [''X'']"
  by (simp add: init_def initialize_managers_def set_manager_def add_table_def
      get_available_tables_def DAList.update.rep_eq DAList.empty.rep_eq)

text \<open>
  C7, amended: after \<open>add_table X\<close> twice, the dict of handles has exactly one entry under
  X, and the second call changed neither the keys nor the list of table names. In that
  list X occurs once if it occurred at most once before the first call, and in general
  as often as before but at least once. The handle under X is not the object the first
  call stored, is bound to X and to the storage the coordinator shares. After
  \<open>remove_table X\<close>, a second \<open>remove_table X\<close> returns False and changes nothing; the
  result type of \<open>remove_table\<close> has no exception.
\<close>

theorem add_remove_idempotent:
  "count_list (get_available_tables (add_table X (add_table X mm))) X = 1
   \<and> get_available_tables (add_table X (add_table X mm)) = get_available_tables (add_table X mm)
   \<and> table_names (add_table X (add_table X mm)) = table_names (add_table X mm)
   \<and> (count_list (table_names mm) X \<le> 1
        \<longrightarrow> count_list (table_names (add_table X (add_table X mm))) X = 1)
   \<and> count_list (table_names (add_table X (add_table X mm))) X = max 1 (count_list (table_names mm) X)
   \<and> (\<exists>h1 h2. get_manager (add_table X mm) X = Some h1
         \<and> get_manager (add_table X (add_table X mm)) X = Some h2
         \<and> m_oid h2 \<noteq> m_oid h1
         \<and> m_table_name h2 = X
         \<and> m_sqlite_storage h2 = Some (sqlite_storage mm)
         \<and> m_sqlite_storage h1 = Some (sqlite_storage mm))
   \<and> sqlite_storage (add_table X (add_table X mm)) = sqlite_storage mm
   \<and> remove_table X (snd (remove_table X mm)) = (False, snd (remove_table X mm))"
proof -
  let ?m1 = "add_table X mm" and ?m2 = "add_table X (add_table X mm)"
  have k1: "X \<in> set (map fst (DAList.impl_of (managers ?m1)))"
    by (simp add: keys_add_table)
  have k2: "map fst (DAList.impl_of (managers ?m2)) = map fst (DAList.impl_of (managers ?m1))"
    using k1 by (subst keys_add_table) simp
  have c: "count_list (map fst (DAList.impl_of (managers ?m1))) X = 1"
    using k1 by (simp add: count_keys_distinct)
  have t1: "X \<in> set (table_names ?m1)"
    by (simp add: table_names_add_table)
  have t2: "table_names ?m2 = table_names ?m1"
    using t1 by (subst table_names_add_table) simp
  have ct: "count_list (table_names ?m1) X = max 1 (count_list (table_names mm) X)"
  proof (cases "X \<in> set (table_names mm)")
    case True
    then have "0 < count_list (table_names mm) X"
      by (metis count_list_0_iff gr0I)
    with True show ?thesis by (simp add: table_names_add_table)
  next
    case False
    then have "count_list (table_names mm) X = 0"
      by (metis count_list_0_iff)
    with False show ?thesis by (simp add: table_names_add_table)
  qed
  have one: "count_list (table_names mm) X \<le> 1 \<longrightarrow> count_list (table_names ?m1) X = 1"
    unfolding ct by simp
  have r: "remove_table X (snd (remove_table X mm)) = (False, snd (remove_table X mm))"
    using remove_table_absent [of X mm] by (subst remove_table_def) simp
  show ?thesis
    using k2 c t2 ct one r
    by (simp add: get_available_tables_def get_manager_def lookup_add_table)
qed

theorem add_remove_idempotent_witness:
  "count_list (table_names example_coordinator) ''T1'' \<le> 1
   \<and> count_list (table_names (add_table ''T1'' (add_table ''T1'' example_coordinator))) ''T1'' = 1
   \<and> count_list (get_available_tables (add_table ''T1'' (add_table ''T1'' example_coordinator))) ''T1'' = 1
   \<and> fst (remove_table ''T1'' (snd (remove_table ''T1'' example_coordinator))) = False"
proof -
  have "table_names example_coordinator = [''T1'', ''T3'', ''T2'']"
    by (simp add: example_coordinator_def init_def initialize_managers_def)
  then have le: "count_list (table_names example_coordinator) ''T1'' \<le> 1"
    by simp
  note idem = add_remove_idempotent [of "''T1''" example_coordinator]
  from idem le
  have "count_list (table_names (add_table ''T1'' (add_table ''T1'' example_coordinator))) ''T1'' = 1"
    by blast
  moreover from idem
  have "count_list (get_available_tables (add_table ''T1'' (add_table ''T1'' example_coordinator))) ''T1'' = 1"
    by blast
  moreover from idem
  have "remove_table ''T1'' (snd (remove_table ''T1'' example_coordinator)) =
      (False, snd (remove_table ''T1'' example_coordinator))"
    by blast
  ultimately show ?thesis
    using le by simp
qed








text \<open>How the operations act on the invariant.\<close>

lemma handles_bound_set_manager:
  assumes "handles_bound mm"
  shows "handles_bound (set_manager n mm)"
  using assms unfolding handles_bound_def get_manager_def
  by (simp add: lookup_set_manager new_manager_def)

lemma handles_bound_table_names:
  "handles_bound (mm\<lparr>table_names := ns\<rparr>) = handles_bound mm"
  by (simp add: handles_bound_def get_manager_def)

lemma handles_bound_add_table:
  assumes "handles_bound mm"
  shows "handles_bound (add_table n mm)"
  using assms by (simp add: add_table_def handles_bound_set_manager handles_bound_table_names)

lemma registry_consistent_add_table:
  assumes "registry_consistent mm"
  shows "registry_consistent (add_table n mm)"
proof -
  have d: "distinct (table_names mm)"
    and s: "set (table_names mm) = set (map fst (DAList.impl_of (managers mm)))"
    and b: "handles_bound mm"
    using assms unfolding registry_consistent_def get_available_tables_def by simp_all
  have "distinct (table_names (add_table n mm))"
    using d by (simp add: table_names_add_table)
  moreover have "set (table_names (add_table n mm)) =
      set (map fst (DAList.impl_of (managers (add_table n mm))))"
    using s by (simp add: table_names_add_table keys_add_table)
  ultimately show ?thesis
    unfolding registry_consistent_def get_available_tables_def
    using handles_bound_add_table [OF b] by simp
qed

lemma registry_consistent_remove_table:
  assumes "registry_consistent mm"
  shows "registry_consistent (snd (remove_table n mm))"
proof (cases "DAList.lookup (managers mm) n = None")
  case True
  with assms show ?thesis by (simp add: remove_table_def)
next
  case False
  have d: "distinct (table_names mm)"
    and s: "set (table_names mm) = set (map fst (DAList.impl_of (managers mm)))"
    and b: "handles_bound mm"
    using assms unfolding registry_consistent_def get_available_tables_def by simp_all
  have n: "n \<in> set (table_names mm)"
    using False s lookup_None_iff [of "managers mm" n] by simp
  let ?mm = "mm\<lparr>managers := DAList.delete n (managers mm),
                 table_names := remove1 n (table_names mm)\<rparr>"
  have r: "snd (remove_table n mm) = ?mm"
    using False n by (simp add: remove_table_def)
  have "distinct (table_names ?mm)"
    using d by simp
  moreover have "set (table_names ?mm) = set (map fst (DAList.impl_of (managers ?mm)))"
    using d s by (simp add: DAList.delete.rep_eq delete_keys)
  moreover have "handles_bound ?mm"
    using b unfolding handles_bound_def get_manager_def by simp
  ultimately show ?thesis
    unfolding r registry_consistent_def get_available_tables_def by simp
qed

lemma registry_consistent_fold_add_table:
  assumes "registry_consistent (snd acc)"
  shows "registry_consistent
           (snd (fold (\<lambda>table_name acc. (DAList.update table_name True (fst acc),
                                          add_table table_name (snd acc))) names acc))"
  using assms
  by (induction names arbitrary: acc) (simp_all add: registry_consistent_add_table)

lemma registry_consistent_discover:
  assumes "registry_consistent mm"
  shows "registry_consistent (snd (discover_and_add_tables_from_base requests_get mm))"
  using assms registry_consistent_fold_add_table [of "(DAList.empty, mm)"]
  by (simp add: discover_and_add_tables_from_base_def split: option.splits)

lemma registry_consistent_apply_op:
  assumes "registry_consistent mm"
  shows "registry_consistent (apply_op op mm)"
  using assms
  by (cases op)
    (simp_all add: registry_consistent_add_table registry_consistent_remove_table
      registry_consistent_discover)

text \<open>The loop of \<open>_initialize_managers\<close>.\<close>

lemma table_names_fold_set_manager:
  "table_names (fold set_manager ks mm) = table_names mm"
  by (induction ks arbitrary: mm) simp_all

lemma keys_fold_set_manager:
  "fst ` set (DAList.impl_of (managers (fold set_manager ks mm))) =
     fst ` set (DAList.impl_of (managers mm)) \<union> set ks"
proof (induction ks arbitrary: mm)
  case Nil
  show ?case by simp
next
  case (Cons k ks)
  have "set (map fst (DAList.impl_of (managers (set_manager k mm)))) =
      insert k (set (map fst (DAList.impl_of (managers mm))))"
    by (simp add: keys_set_manager insert_absorb)
  then show ?case
    by (simp add: Cons.IH)
qed

lemma handles_bound_fold_set_manager:
  assumes "handles_bound mm"
  shows "handles_bound (fold set_manager ks mm)"
  using assms
  by (induction ks arbitrary: mm) (simp_all add: handles_bound_set_manager)

lemma registry_consistent_init:
  assumes "case the_table_names of None \<Rightarrow> True | Some ns \<Rightarrow> distinct ns"
  shows "registry_consistent (init the_api_key the_base_id the_table_names the_storage new_storage)"
proof -
  let ?ns = "case the_table_names of None \<Rightarrow> [''DataHub_Craffft''] | Some ns \<Rightarrow> ns"
  let ?mm0 = "\<lparr>api_key = the_api_key, base_id = the_base_id, managers = DAList.empty,
               sqlite_storage = (case the_storage of Some st \<Rightarrow> st | None \<Rightarrow> new_storage),
               table_names = ?ns, next_oid = 0\<rparr>"
  have d: "distinct ?ns"
    using assms by (simp split: option.splits)
  have i: "init the_api_key the_base_id the_table_names the_storage new_storage =
             fold set_manager ?ns ?mm0"
    by (simp add: init_def initialize_managers_def)
  have "handles_bound ?mm0"
    by (simp add: handles_bound_def get_manager_def)
  then have b: "handles_bound (fold set_manager ?ns ?mm0)"
    by (rule handles_bound_fold_set_manager)
  have t: "table_names (fold set_manager ?ns ?mm0) = ?ns"
    by (simp add: table_names_fold_set_manager)
  have k: "fst ` set (DAList.impl_of (managers (fold set_manager ?ns ?mm0))) = set ?ns"
    by (simp add: keys_fold_set_manager DAList.empty.rep_eq)
  show ?thesis
    unfolding i registry_consistent_def get_available_tables_def
    using b d t k by simp
qed

text \<open>
  C8, as stated, fails: constructed with the list \<open>A, A\<close> the coordinator keeps both
  entries in its list of table names beside the one handle, and \<open>remove_table A\<close> then
  removes the handle and only the first of them, leaving a name without handle.
\<close>

theorem duplicate_initial_names_counterexample:
  "table_names (init ''key'' ''base'' (Some [''A'', ''A'']) None 0) = [''A'', ''A'']
   \<and> get_available_tables (init ''key'' ''base'' (Some [''A'', ''A'']) None 0) = [''A'']
   \<and> \<not> registry_consistent (init ''key'' ''base'' (Some [''A'', ''A'']) None 0)
   \<and> table_names (apply_op (RemoveTable ''A'') (init ''key'' ''base'' (Some [''A'', ''A'']) None 0))
       = [''A'']
   \<and> get_available_tables
       (apply_op (RemoveTable ''A'') (init ''key'' ''base'' (Some [''A'', ''A'']) None 0)) = []
   \<and> \<not> registry_consistent
       (apply_op (RemoveTable ''A'') (init ''key'' ''base'' (Some [''A'', ''A'']) None 0))"
proof -
  let ?mm = "init ''key'' ''base'' (Some [''A'', ''A'']) None 0"
  have t: "table_names ?mm = [''A'', ''A'']"
    by (simp add: init_def initialize_managers_def)
  have k: "map fst (DAList.impl_of (managers ?mm)) = [''A'']"
    by (simp add: init_def initialize_managers_def set_manager_def
        DAList.update.rep_eq DAList.empty.rep_eq)
  have l: "DAList.lookup (managers ?mm) ''A'' \<noteq> None"
    using k lookup_None_iff [of "managers ?mm" "''A''"] by simp
  have r: "snd (remove_table ''A'' ?mm) =
      ?mm\<lparr>managers := DAList.delete ''A'' (managers ?mm), table_names := [''A'']\<rparr>"
    using l t by (simp add: remove_table_def)
  have k': "map fst (DAList.impl_of (DAList.delete ''A'' (managers ?mm))) = []"
    using k by (simp add: DAList.delete.rep_eq delete_keys)
  show ?thesis
    using t k k'
    by (simp add: r registry_consistent_def get_available_tables_def)
qed

text \<open>
  C8, amended: constructed with no list (the default table) or with a list without
  duplicates, the coordinator satisfies the invariant, and so it does after every
  sequence of \<open>add_table\<close>, \<open>remove_table\<close> and \<open>discover_and_add_tables_from_base\<close>.
\<close>

theorem registry_consistent_always:
  assumes "case the_table_names of None \<Rightarrow> True | Some ns \<Rightarrow> distinct ns"
  shows "registry_consistent
           (fold apply_op ops (init the_api_key the_base_id the_table_names the_storage new_storage))"
proof -
  have "registry_consistent (fold apply_op ops mm)" if "registry_consistent mm" for mm
    using that by (induction ops arbitrary: mm) (simp_all add: registry_consistent_apply_op)
  with registry_consistent_init [OF assms] show ?thesis
    by blast
qed

theorem registry_consistent_always_witness:
  "distinct [''A'', ''B'']
   \<and> registry_consistent
       (fold apply_op
          [AddTable ''C'', RemoveTable ''A'', AddTable ''C'',
           DiscoverAndAdd (\<lambda>b. Inr \<lparr>status_code = 200,
                                     json = Inr (JsonObject (Some [Some ''D'', Some ''B'']))\<rparr>),
           RemoveTable ''X'']
          (init ''key'' ''base'' (Some [''A'', ''B'']) (Some 7) 0))
   \<and> table_names
       (fold apply_op
          [AddTable ''C'', RemoveTable ''A'', AddTable ''C'',
           DiscoverAndAdd (\<lambda>b. Inr \<lparr>status_code = 200,
                                     json = Inr (JsonObject (Some [Some ''D'', Some ''B'']))\<rparr>),
           RemoveTable ''X'']
          (init ''key'' ''base'' (Some [''A'', ''B'']) (Some 7) 0)) = [''B'', ''C'', ''D'']"
proof -
  let ?ops = "[AddTable ''C'', RemoveTable ''A'', AddTable ''C'',
           DiscoverAndAdd (\<lambda>b. Inr \<lparr>status_code = 200,
                                     json = Inr (JsonObject (Some [Some ''D'', Some ''B'']))\<rparr>),
           RemoveTable ''X'']"
  let ?mm = "init ''key'' ''base'' (Some [''A'', ''B'']) (Some 7) 0"
  have d: "case Some [''A'', ''B''] of None \<Rightarrow> True | Some ns \<Rightarrow> distinct ns"
    by simp
  have t: "table_names (fold apply_op ?ops ?mm) = [''B'', ''C'', ''D'']"
    by (simp add: init_def initialize_managers_def set_manager_def add_table_def
        remove_table_def discover_and_add_tables_from_base_def get_tables_from_base_def
        DAList.lookup.rep_eq DAList.update.rep_eq DAList.empty.rep_eq DAList.delete.rep_eq)
  from registry_consistent_always [OF d, of ?ops "''key''" "''base''" "Some 7" 0] t
  show ?thesis by simp
qed

end
